theory Spec2Isabelle
  imports Main "HOL-Library.Multiset"
begin

section \<open>Time instants\<close>

text \<open>
  A Go \<open>time.Time\<close> is used by the program only through \<open>Equal\<close>, \<open>After\<close> and
  \<open>Before\<close>, which compare time instants. An instant is modelled as the number of
  nanoseconds since the zero value of \<open>time.Time\<close> (January 1, year 1, UTC), so the
  zero value declared by \<open>var mostRecentTime time.Time\<close> is \<open>0\<close>.
\<close>

type_synonym time = int

definition zero_time :: time where
  "zero_time = 0"

definition Equal :: "time \<Rightarrow> time \<Rightarrow> bool" where
  "Equal t u \<longleftrightarrow> t = u"

definition After :: "time \<Rightarrow> time \<Rightarrow> bool" where
  "After t u \<longleftrightarrow> u < t"

definition Before :: "time \<Rightarrow> time \<Rightarrow> bool" where
  "Before t u \<longleftrightarrow> t < u"

section \<open>The change tracker: \<open>ModifiedTimes\<close>\<close>

record ModifiedTimes =
  TimeMap :: "string \<rightharpoonup> time"

text \<open>
  \<open>for path, time := range m.TimeMap\<close> visits every entry of the map exactly once, in an
  order Go leaves unspecified. A traversal is the list of entries in the order of the
  visit.
\<close>

definition is_traversal :: "ModifiedTimes \<Rightarrow> (string \<times> time) list \<Rightarrow> bool" where
  "is_traversal m entries \<longleftrightarrow> distinct (map fst entries) \<and> map_of entries = TimeMap m"

text \<open>The body of the loop of \<open>SortaSorted\<close>, on the entries still to be visited.\<close>

fun SortaSorted_loop :: "(string \<times> time) list \<Rightarrow> string list \<Rightarrow> time \<Rightarrow> string list" where
  "SortaSorted_loop [] returnSlice mostRecentTime = returnSlice"
| "SortaSorted_loop ((path, t) # rest) returnSlice mostRecentTime =
     (if After t mostRecentTime
      then SortaSorted_loop rest (returnSlice @ [path]) t
      else SortaSorted_loop rest ([path] @ returnSlice) mostRecentTime)"

definition SortaSorted :: "(string \<times> time) list \<Rightarrow> string list" where
  "SortaSorted entries = SortaSorted_loop entries [] zero_time"

definition Len :: "ModifiedTimes \<Rightarrow> nat" where
  "Len m = card (dom (TimeMap m))"

text \<open>
  The outcome of \<open>os.Stat(path)\<close>: an error, no error with a nil \<open>FileInfo\<close> (the code
  tests for it), or a \<open>FileInfo\<close>, of which only \<open>ModTime()\<close> is read. The file system
  is a parameter of \<open>CheckTime\<close>.
\<close>

datatype stat_result = StatError | StatNil | StatInfo time

type_synonym filesystem = "string \<Rightarrow> stat_result"

definition CheckTime :: "filesystem \<Rightarrow> ModifiedTimes \<Rightarrow> string \<Rightarrow> bool \<times> ModifiedTimes" where
  "CheckTime os_Stat m path =
     (case os_Stat path of
        StatError \<Rightarrow> (False, m)
      | StatNil \<Rightarrow> (False, m)
      | StatInfo mt \<Rightarrow>
          (let hasChanged =
                 (case TimeMap m path of
                    Some storedTime \<Rightarrow> (if \<not> Equal storedTime mt then True else False)
                  | None \<Rightarrow> True)
           in if hasChanged then (True, m\<lparr>TimeMap := (TimeMap m)(path \<mapsto> mt)\<rparr>)
              else (False, m)))"


text \<open>A file system holding the single file \<open>p\<close>, last modified at \<open>mt\<close>.\<close>

definition single_file :: "string \<Rightarrow> time \<Rightarrow> filesystem" where
  "single_file p mt q = (if q = p then StatInfo mt else StatError)"




section \<open>Strings and regular expressions\<close>

text \<open>
  Strings are byte strings. The character classes are the ones of Go's \<open>regexp/syntax\<close>:
  \<open>\d\<close> is \<open>[0-9]\<close>, \<open>\w\<close> is \<open>[0-9A-Za-z_]\<close>, \<open>\s\<close> is \<open>[\t\n\f\r ]\<close>, and \<open>.\<close> is any
  character but the newline. The patterns of \<open>rexes\<close> anchor every \<open>.\<close> and every
  repetition between ASCII characters, so matching bytes and matching UTF-8 runes give
  the same submatches.
\<close>

definition is_digit :: "char \<Rightarrow> bool" where
  "is_digit c \<longleftrightarrow> 48 \<le> (of_char c :: nat) \<and> (of_char c :: nat) \<le> 57"

definition is_word :: "char \<Rightarrow> bool" where
  "is_word c \<longleftrightarrow> is_digit c \<or> (65 \<le> (of_char c :: nat) \<and> (of_char c :: nat) \<le> 90)
     \<or> c = CHR ''_'' \<or> (97 \<le> (of_char c :: nat) \<and> (of_char c :: nat) \<le> 122)"

definition is_space :: "char \<Rightarrow> bool" where
  "is_space c \<longleftrightarrow> (of_char c :: nat) \<in> {9, 10, 12, 13, 32}"

datatype cls = Lit char | PerlWord | PerlDigit | PerlSpace | AnyNotNL | Union cls cls

fun cls_matches :: "cls \<Rightarrow> char \<Rightarrow> bool" where
  "cls_matches (Lit a) c \<longleftrightarrow> c = a"
| "cls_matches PerlWord c \<longleftrightarrow> is_word c"
| "cls_matches PerlDigit c \<longleftrightarrow> is_digit c"
| "cls_matches PerlSpace c \<longleftrightarrow> is_space c"
| "cls_matches AnyNotNL c \<longleftrightarrow> c \<noteq> CHR 0x0A"
| "cls_matches (Union k l) c \<longleftrightarrow> cls_matches k c \<or> cls_matches l c"

text \<open>
  The patterns of \<open>rexes\<close> are sequences of: one character of a class, a greedy
  repetition \<open>+\<close> or \<open>*\<close> of a class, a counted repetition \<open>{n}\<close> of a class, the two ends
  of a capturing group, and the line anchors \<open>^\<close> and \<open>$\<close> under the flag \<open>(?m)\<close>.
\<close>

datatype node = One cls | Plus cls | Star cls | Times cls nat
  | GroupOpen nat | GroupClose nat | BeginLine | EndLine

type_synonym caps = "nat \<Rightarrow> nat \<times> nat"

fun run_length :: "cls \<Rightarrow> string \<Rightarrow> nat" where
  "run_length k [] = 0"
| "run_length k (c # cs) = (if cls_matches k c then Suc (run_length k cs) else 0)"

text \<open>
  Go's \<open>regexp\<close> returns the match a backtracking search finds first: a greedy repetition
  tries the longest run first, then shorter ones, down to its minimum \<open>lo\<close>.
\<close>

fun backtrack :: "(nat \<Rightarrow> 'a option) \<Rightarrow> nat \<Rightarrow> nat \<Rightarrow> 'a option" where
  "backtrack f lo 0 = (if lo = 0 then f 0 else None)"
| "backtrack f lo (Suc n) =
     (if Suc n < lo then None
      else case f (Suc n) of Some r \<Rightarrow> Some r | None \<Rightarrow> backtrack f lo n)"

definition node_match ::
  "string \<Rightarrow> node \<Rightarrow> (nat \<Rightarrow> caps \<Rightarrow> (nat \<times> caps) option) \<Rightarrow> nat \<Rightarrow> caps \<Rightarrow> (nat \<times> caps) option" where
  "node_match s x k i c =
     (case x of
        One cl \<Rightarrow> (if i < length s \<and> cls_matches cl (s ! i) then k (Suc i) c else None)
      | Plus cl \<Rightarrow> backtrack (\<lambda>n. k (i + n) c) 1 (run_length cl (drop i s))
      | Star cl \<Rightarrow> backtrack (\<lambda>n. k (i + n) c) 0 (run_length cl (drop i s))
      | Times cl n \<Rightarrow> (if n \<le> run_length cl (drop i s) then k (i + n) c else None)
      | GroupOpen g \<Rightarrow> k i (c(g := (i, snd (c g))))
      | GroupClose g \<Rightarrow> k i (c(g := (fst (c g), i)))
      | BeginLine \<Rightarrow> (if i = 0 \<or> s ! (i - 1) = CHR 0x0A then k i c else None)
      | EndLine \<Rightarrow> (if i = length s \<or> s ! i = CHR 0x0A then k i c else None))"

primrec nodes_match :: "node list \<Rightarrow> string \<Rightarrow> nat \<Rightarrow> caps \<Rightarrow> (nat \<times> caps) option" where
  "nodes_match [] s i c = Some (i, c)"
| "nodes_match (x # r) s i c = node_match s x (nodes_match r s) i c"

record Regexp =
  prog :: "node list"
  numSubexp :: nat

text \<open>The leftmost match at or after \<open>pos\<close>: its start, its end and its groups.\<close>

fun search :: "node list \<Rightarrow> string \<Rightarrow> nat \<Rightarrow> nat \<Rightarrow> (nat \<times> nat \<times> caps) option" where
  "search re s pos 0 = map_option (Pair pos) (nodes_match re s pos (\<lambda>g. (0, 0)))"
| "search re s pos (Suc n) =
     (case nodes_match re s pos (\<lambda>g. (0, 0)) of
        Some r \<Rightarrow> Some (pos, r)
      | None \<Rightarrow> search re s (Suc pos) n)"

definition doExecute :: "Regexp \<Rightarrow> string \<Rightarrow> nat \<Rightarrow> (nat \<times> nat \<times> caps) option" where
  "doExecute re s pos = search (prog re) s pos (length s - pos)"

definition substr :: "string \<Rightarrow> nat \<times> nat \<Rightarrow> string" where
  "substr s be = take (snd be - fst be) (drop (fst be) s)"

definition submatches :: "Regexp \<Rightarrow> string \<Rightarrow> nat \<times> nat \<times> caps \<Rightarrow> string list" where
  "submatches re s m =
     substr s (fst m, fst (snd m)) # map (\<lambda>g. substr s (snd (snd m) g)) [1..<Suc (numSubexp re)]"

text \<open>\<open>FindStringSubmatch\<close> returns nil, here \<open>None\<close>, when there is no match.\<close>

definition FindStringSubmatch :: "Regexp \<Rightarrow> string \<Rightarrow> string list option" where
  "FindStringSubmatch re s = map_option (submatches re s) (doExecute re s 0)"

text \<open>
  The loop of \<open>allMatches\<close> behind \<open>FindAllStringSubmatch(s, -1)\<close>: successive matches that
  do not overlap. An empty match right after the previous match is not delivered, and
  the search then moves on by one character. The bound \<open>n = len(s) + 1\<close> on the number
  of matches is never reached.
\<close>

function allMatches :: "Regexp \<Rightarrow> string \<Rightarrow> nat \<Rightarrow> int \<Rightarrow> (nat \<times> nat \<times> caps) list" where
  "allMatches re s pos prevMatchEnd =
     (if length s < pos then []
      else case doExecute re s pos of
             None \<Rightarrow> []
           | Some m \<Rightarrow>
               (if fst (snd m) = pos
                then (if int (fst m) = prevMatchEnd
                      then allMatches re s (Suc pos) (int (fst (snd m)))
                      else m # allMatches re s (Suc pos) (int (fst (snd m))))
                else m # allMatches re s (fst (snd m)) (int (fst (snd m)))))"
  by pat_completeness auto
termination
proof (relation "measure (\<lambda>(re, s, pos, prevMatchEnd). Suc (length s) - pos)")
  have tried: "\<exists>n. f n = Some r" if "backtrack f lo hi = Some r"
    for f :: "nat \<Rightarrow> (nat \<times> caps) option" and lo hi r
    using that by (induction hi) (auto split: if_splits option.splits)
  have forward: "i \<le> j" if "nodes_match r s i c = Some (j, c')" for r s i c j c'
    using that
  proof (induction r arbitrary: i c)
    case Nil
    then show ?case by simp
  next
    case (Cons x r)
    show ?case
    proof (cases x)
      case (Plus cl)
      with Cons.prems have "backtrack (\<lambda>n. nodes_match r s (i + n) c) 1
          (run_length cl (drop i s)) = Some (j, c')"
        by (simp add: node_match_def)
      from tried [OF this] obtain n where "nodes_match r s (i + n) c = Some (j, c')"
        by blast
      from Cons.IH [OF this] show ?thesis by simp
    next
      case (Star cl)
      with Cons.prems have "backtrack (\<lambda>n. nodes_match r s (i + n) c) 0
          (run_length cl (drop i s)) = Some (j, c')"
        by (simp add: node_match_def)
      from tried [OF this] obtain n where "nodes_match r s (i + n) c = Some (j, c')"
        by blast
      from Cons.IH [OF this] show ?thesis by simp
    next
      case (One cl)
      with Cons.prems have "nodes_match r s (Suc i) c = Some (j, c')"
        by (simp add: node_match_def split: if_splits)
      from Cons.IH [OF this] show ?thesis by simp
    next
      case (Times cl n)
      with Cons.prems have "nodes_match r s (i + n) c = Some (j, c')"
        by (simp add: node_match_def split: if_splits)
      from Cons.IH [OF this] show ?thesis by simp
    qed (use Cons in \<open>auto simp: node_match_def split: if_splits\<close>)
  qed
  have found: "pos \<le> fst (snd m)" if "search re s pos n = Some m" for re s pos n m
    using that
  proof (induction n arbitrary: pos)
    case 0
    then show ?case by (auto dest: forward)
  next
    case (Suc n)
    show ?case
    proof (cases "nodes_match re s pos (\<lambda>g. (0, 0))")
      case None
      with Suc.prems have "search re s (Suc pos) n = Some m" by simp
      from Suc.IH [OF this] show ?thesis by simp
    next
      case (Some r)
      with Suc.prems show ?thesis by (cases r) (auto dest: forward)
    qed
  qed
  show "wf (measure (\<lambda>(re, s, pos, prevMatchEnd). Suc (length s) - pos))"
    by simp
  show "((re, s, Suc pos, int (fst (snd m))), re, s, pos, prevMatchEnd)
          \<in> measure (\<lambda>(re, s, pos, prevMatchEnd). Suc (length s) - pos)"
    if "\<not> length s < pos" for re s pos prevMatchEnd m
    using that by simp
  then show "((re, s, Suc pos, int (fst (snd m))), re, s, pos, prevMatchEnd)
          \<in> measure (\<lambda>(re, s, pos, prevMatchEnd). Suc (length s) - pos)"
    if "\<not> length s < pos" for re s pos prevMatchEnd m
    using that by simp
  show "((re, s, fst (snd m), int (fst (snd m))), re, s, pos, prevMatchEnd)
          \<in> measure (\<lambda>(re, s, pos, prevMatchEnd). Suc (length s) - pos)"
    if "\<not> length s < pos" and "doExecute re s pos = Some m" and "fst (snd m) \<noteq> pos"
    for re s pos prevMatchEnd m
    using that found [of "prog re" s pos "length s - pos" m]
    by (simp add: doExecute_def)
qed

definition FindAllStringSubmatch :: "Regexp \<Rightarrow> string \<Rightarrow> string list list" where
  "FindAllStringSubmatch re s = map (submatches re s) (allMatches re s 0 (- 1))"


definition rexes_pylint :: Regexp where
  "rexes_pylint = \<lparr>prog = [BeginLine, GroupOpen 1, One PerlWord, GroupClose 1,
     One (Lit CHR '':''), Plus PerlSpace, GroupOpen 2, Plus PerlDigit, GroupClose 2,
     One (Lit CHR '',''), Star PerlSpace, GroupOpen 3, Plus PerlDigit, GroupClose 3,
     One (Lit CHR '':''), One PerlSpace, GroupOpen 4, Plus AnyNotNL, GroupClose 4, EndLine],
     numSubexp = 4\<rparr>"

definition rexes_blameName :: Regexp where
  "rexes_blameName = \<lparr>prog = [One (Lit CHR ''(''), GroupOpen 1,
     Plus (Union PerlWord PerlSpace), GroupClose 1, Times PerlDigit 4], numSubexp = 1\<rparr>"

definition rexes_goBuild :: Regexp where
  "rexes_goBuild = \<lparr>prog = [Plus PerlWord, One (Lit CHR '':''), GroupOpen 1, Plus PerlDigit,
     GroupClose 1, One (Lit CHR '':''), One PerlSpace, GroupOpen 2, Plus AnyNotNL, GroupClose 2,
     EndLine], numSubexp = 2\<rparr>"

section \<open>Diagnostics\<close>

text \<open>
  \<open>strconv.ParseInt(s, 10, 0)\<close>: an optional sign and decimal digits, in the range of
  \<open>int\<close>, which has 64 bits on the platforms considered. The result is the value and
  the error, if any. The unsigned value read by \<open>ParseUint\<close> is kept as a mathematical
  integer, with the overflow of 64 bits written out.
\<close>

datatype NumError = ErrSyntax | ErrRange

definition decimal :: "string \<Rightarrow> int" where
  "decimal s = foldl (\<lambda>n c. 10 * n + (of_char c - 48)) 0 s"

definition ParseUint :: "string \<Rightarrow> int \<times> NumError option" where
  "ParseUint s =
     (if s = [] then (0, Some ErrSyntax)
      else if \<not> list_all is_digit s then (0, Some ErrSyntax)
      else if 2 ^ 64 \<le> decimal s then (2 ^ 64 - 1, Some ErrRange)
      else (decimal s, None))"

definition ParseInt :: "string \<Rightarrow> int \<times> NumError option" where
  "ParseInt s =
     (if s = [] then (0, Some ErrSyntax)
      else
        let neg = (hd s = CHR ''-'');
            s' = (if hd s = CHR ''+'' \<or> hd s = CHR ''-'' then tl s else s);
            (un, err) = ParseUint s'
        in if err \<noteq> None \<and> err \<noteq> Some ErrRange then (0, err)
           else if \<not> neg \<and> 2 ^ 63 \<le> un then (2 ^ 63 - 1, Some ErrRange)
           else if neg \<and> 2 ^ 63 < un then (- (2 ^ 63), Some ErrRange)
           else (if neg then - un else un, None))"

record Wart =
  Reporter :: string
  Line :: int
  Column :: int
  IssueCode :: string
  Message :: string

text \<open>\<open>log.Fatal\<close> and \<open>log.Fatalf\<close> print the message and end the process.\<close>

datatype fatal = Fatal string

definition NewWart :: "string \<Rightarrow> string \<Rightarrow> string \<Rightarrow> string \<Rightarrow> string \<Rightarrow> fatal + Wart" where
  "NewWart reporter line column issueCode message =
     (case ParseInt line of
        (line64, Some err) \<Rightarrow> Inl (Fatal (''Failed parsing line number '' @ line))
      | (line64, None) \<Rightarrow>
          (case ParseInt column of
             (col64, Some err) \<Rightarrow> Inl (Fatal (''Failed parsing column number '' @ column))
           | (col64, None) \<Rightarrow>
               Inr \<lparr>Reporter = reporter, Line = line64, Column = col64,
                    IssueCode = issueCode, Message = message\<rparr>))"

section \<open>Target files\<close>

record TargetFile =
  Path :: string
  ContentLines :: "string list"
  BlameLines :: "string list"
  Warts :: "int \<rightharpoonup> Wart list"

text \<open>
  What the program reads from outside: \<open>ioutil.ReadFile\<close> (\<open>None\<close> is an error), and the
  commands run through \<open>exec.Command\<close>, with the captured standard output (\<open>Output\<close>) or
  standard output and error (\<open>CombinedOutput\<close>) and whether the error returned is not nil
  (the command did not start, or exited with a non-zero status). The calls of
  \<open>os.Chdir(config.WorkingDir)\<close> only set where the commands run; they are part of what
  the environment answers.
\<close>

record Env =
  ReadFile :: "string \<Rightarrow> string option"
  Output :: "string \<Rightarrow> string list \<Rightarrow> string \<times> bool"
  CombinedOutput :: "string \<Rightarrow> string list \<Rightarrow> string \<times> bool"


text \<open>
  \<open>filepath.Ext\<close> and \<open>filepath.Split\<close> with the separator \<open>/\<close>: the scan runs from the
  end of the path, here over the reversed path, \<open>seen\<close> being the part already passed.
\<close>

fun Ext_scan :: "string \<Rightarrow> string \<Rightarrow> string" where
  "Ext_scan [] seen = []"
| "Ext_scan (c # cs) seen =
     (if c = CHR ''/'' then []
      else if c = CHR ''.'' then c # seen
      else Ext_scan cs (c # seen))"

definition filepath_Ext :: "string \<Rightarrow> string" where
  "filepath_Ext path = Ext_scan (rev path) []"

fun Split_scan :: "string \<Rightarrow> string \<Rightarrow> string \<times> string" where
  "Split_scan [] seen = ([], seen)"
| "Split_scan (c # cs) seen =
     (if c = CHR ''/'' then (rev (c # cs), seen) else Split_scan cs (c # seen))"

definition filepath_Split :: "string \<Rightarrow> string \<times> string" where
  "filepath_Split path = Split_scan (rev path) []"


definition ExtEquals :: "TargetFile \<Rightarrow> string \<Rightarrow> bool" where
  "ExtEquals tf ext \<longleftrightarrow> filepath_Ext (Path tf) = ext"

definition AddWart :: "TargetFile \<Rightarrow> Wart \<Rightarrow> TargetFile" where
  "AddWart tf wart =
     (let warts = (case Warts tf (Line wart) of None \<Rightarrow> (Warts tf)(Line wart \<mapsto> []) | Some ws \<Rightarrow> Warts tf)
      in tf\<lparr>Warts := warts(Line wart \<mapsto> (case warts (Line wart) of Some ws \<Rightarrow> ws @ [wart] | None \<Rightarrow> [wart]))\<rparr>)"



fun GoCmd_loop :: "string \<Rightarrow> string list list \<Rightarrow> TargetFile \<Rightarrow> fatal + TargetFile" where
  "GoCmd_loop goCmd [] tf = Inr tf"
| "GoCmd_loop goCmd (grp # parsed) tf =
     (case NewWart goCmd (grp ! 1) ''0'' ''-'' (grp ! 2) of
        Inl stop \<Rightarrow> Inl stop
      | Inr wart \<Rightarrow> GoCmd_loop goCmd parsed (AddWart tf wart))"

definition GoCmd :: "Env \<Rightarrow> string \<Rightarrow> TargetFile \<Rightarrow> fatal + TargetFile" where
  "GoCmd env goCmd tf =
     (if \<not> ExtEquals tf ''.go'' then Inr tf
      else case filepath_Split (Path tf) of
             (dir, file) \<Rightarrow>
               (case CombinedOutput env ''go'' [goCmd, file] of
                  (results, err) \<Rightarrow>
                    GoCmd_loop goCmd (FindAllStringSubmatch rexes_goBuild results) tf))"



fun PyLint_loop :: "string list list \<Rightarrow> TargetFile \<Rightarrow> fatal + TargetFile" where
  "PyLint_loop [] tf = Inr tf"
| "PyLint_loop (grp # parsed) tf =
     (case NewWart ''Pylint'' (grp ! 2) (grp ! 3) (grp ! 1) (grp ! 4) of
        Inl stop \<Rightarrow> Inl stop
      | Inr wart \<Rightarrow> PyLint_loop parsed (AddWart tf wart))"

definition PyLint :: "Env \<Rightarrow> TargetFile \<Rightarrow> fatal + TargetFile" where
  "PyLint env tf =
     (if filepath_Ext (Path tf) \<noteq> ''.py'' then Inr tf
      else case Output env ''pylint'' [''--output-format=text'', Path tf] of
             (results, err) \<Rightarrow> PyLint_loop (FindAllStringSubmatch rexes_pylint results) tf)"

text \<open>
  \<open>strings.TrimSpace\<close> on ASCII text. It is applied to the first group of
  \<open>rexes_blameName\<close> only, which holds word and space characters.
\<close>

definition is_trim_space :: "char \<Rightarrow> bool" where
  "is_trim_space c \<longleftrightarrow> (of_char c :: nat) \<in> {9, 10, 11, 12, 13, 32}"

definition TrimSpace :: "string \<Rightarrow> string" where
  "TrimSpace s = rev (dropWhile is_trim_space (rev (dropWhile is_trim_space s)))"

text \<open>
  A run-time panic of \<open>BlameName\<close>: the index of \<open>tf.BlameLines[line-1]\<close> or of \<open>match[1]\<close>
  is out of range, the latter when \<open>FindStringSubmatch\<close> returned nil. The line number
  is a mathematical integer: for the least 64-bit \<open>int\<close> the index \<open>line-1\<close> wraps around
  to the greatest one in Go, and is out of range either way.
\<close>

datatype panic = BlameLineOutOfRange | NoMatchOutOfRange

definition BlameName :: "TargetFile \<Rightarrow> int \<Rightarrow> panic + string" where
  "BlameName tf line =
     (if length (BlameLines tf) = 0 then Inr ''-''
      else if line - 1 < 0 \<or> int (length (BlameLines tf)) \<le> line - 1 then Inl BlameLineOutOfRange
      else case FindStringSubmatch rexes_blameName (BlameLines tf ! nat (line - 1)) of
             None \<Rightarrow> Inl NoMatchOutOfRange
           | Some match \<Rightarrow>
               (if length match \<le> 1 then Inl NoMatchOutOfRange
                else Inr (TrimSpace (match ! 1))))"



text \<open>
  A sample environment: the readable files with their content, and the commands that
  start and exit with status zero, by name, with their output. Every other file cannot
  be read and every other command fails without output.
\<close>

definition sample_env :: "(string \<times> string) list \<Rightarrow> (string \<times> string) list \<Rightarrow> Env" where
  "sample_env files tools =
     \<lparr>ReadFile = map_of files,
      Output = (\<lambda>name args. case map_of tools name of Some out \<Rightarrow> (out, False) | None \<Rightarrow> ([], True)),
      CombinedOutput = (\<lambda>name args. case map_of tools name of Some out \<Rightarrow> (out, False) | None \<Rightarrow> ([], True))\<rparr>"


text \<open>
  The text the pattern \<open>rexes_blameName\<close> stands for, stated on the string itself: an
  opening parenthesis, then a non-empty run of word or space characters, then four
  digits.
\<close>

definition has_name_and_year :: "string \<Rightarrow> bool" where
  "has_name_and_year s \<longleftrightarrow>
     (\<exists>pre name year post.
        s = pre @ ''('' @ name @ year @ post \<and> name \<noteq> [] \<and>
        list_all (\<lambda>c. is_word c \<or> is_space c) name \<and>
        length year = 4 \<and> list_all is_digit year)"

text \<open>A sample target file with the given path and blame lines, and nothing else.\<close>

definition sample_target :: "string \<Rightarrow> string list \<Rightarrow> TargetFile" where
  "sample_target path blame = \<lparr>Path = path, ContentLines = [], BlameLines = blame, Warts = Map.empty\<rparr>"

section \<open>The recency order\<close>

lemma SortaSorted_loop_mset:
  "mset (SortaSorted_loop es acc mr) = mset (map fst es) + mset acc"
  by (induction es acc mr rule: SortaSorted_loop.induct) auto

text \<open>
  C1. With the entries a (one day ago), b (now) and c (two days ago) visited in the order
  a, b, c, the result is c, a, b: a and b are appended, c is put in front. The present
  time lies after the zero time.
\<close>

theorem SortaSorted_regression_case:
  assumes "0 < day" and "After now zero_time"
  shows "SortaSorted [(a, now - day), (b, now), (c, now - 2 * day)] = [c, a, b]"
  using assms by (simp add: SortaSorted_def After_def zero_time_def)

theorem SortaSorted_regression_case_witness:
  "(0::int) < 86400000000000 \<and> After 63900000000000000000 zero_time \<and>
   SortaSorted [(''abc'', 63900000000000000000 - 86400000000000),
                (''def'', 63900000000000000000),
                (''ghi'', 63900000000000000000 - 2 * 86400000000000)]
     = [''ghi'', ''abc'', ''def'']"
  using SortaSorted_regression_case [of 86400000000000 63900000000000000000 "''abc''" "''def''" "''ghi''"]
  by (simp add: After_def zero_time_def)

lemma SortaSorted_loop_all_prepended:
  "\<forall>(q, u) \<in> set es. u \<le> mr \<Longrightarrow> SortaSorted_loop es acc mr = rev (map fst es) @ acc"
  by (induction es acc mr rule: SortaSorted_loop.induct) (auto simp: After_def)

lemma SortaSorted_loop_last:
  assumes "distinct (map fst es)" and "(p, t) \<in> set es"
    and "\<forall>(q, u) \<in> set es. q \<noteq> p \<longrightarrow> u < t" and "mr < t"
  shows "last (SortaSorted_loop es acc mr) = p"
  using assms
proof (induction es arbitrary: acc mr)
  case Nil
  then show ?case by simp
next
  case (Cons e es)
  obtain q u where e: "e = (q, u)" by (cases e)
  show ?case
  proof (cases "q = p")
    case True
    with Cons.prems e have ut: "u = t"
      by (auto simp: image_iff)
    from Cons.prems e True have notin: "p \<notin> fst ` set es"
      by simp
    with Cons.prems(3) have "\<forall>(q', u') \<in> set es. u' \<le> t"
      by (fastforce simp: image_iff)
    then have "SortaSorted_loop es (acc @ [p]) t = rev (map fst es) @ acc @ [p]"
      by (rule SortaSorted_loop_all_prepended)
    with e True ut Cons.prems(4) show ?thesis
      by (simp add: After_def)
  next
    case False
    with Cons.prems e have mem: "(p, t) \<in> set es" and d: "distinct (map fst es)"
      and rest: "\<forall>(q', u') \<in> set es. q' \<noteq> p \<longrightarrow> u' < t" and ut: "u < t"
      by auto
    show ?thesis
    proof (cases "After u mr")
      case True
      with e Cons.IH [OF d mem rest ut] show ?thesis by simp
    next
      case False
      with e Cons.IH [OF d mem rest Cons.prems(4)] show ?thesis by simp
    qed
  qed
qed

text \<open>
  C2. For a non-empty snapshot whose timestamps all lie after the zero time and whose
  most recent timestamp is held by one path only, every traversal order gives a result
  that lists each tracked path exactly once (so its length is \<open>Len\<close>) and ends with the
  path of the most recent timestamp.
\<close>

theorem SortaSorted_permutation_most_recent_last:
  assumes trav: "is_traversal m entries"
    and nonempty: "TimeMap m \<noteq> Map.empty"
    and positive: "\<forall>q u. TimeMap m q = Some u \<longrightarrow> After u zero_time"
    and newest: "TimeMap m p = Some t"
    and unique: "\<forall>q u. TimeMap m q = Some u \<and> q \<noteq> p \<longrightarrow> Before u t"
  shows "distinct (SortaSorted entries) \<and>
         set (SortaSorted entries) = dom (TimeMap m) \<and>
         length (SortaSorted entries) = Len m \<and>
         last (SortaSorted entries) = p"
proof -
  from trav have d: "distinct (map fst entries)" and m: "map_of entries = TimeMap m"
    by (simp_all add: is_traversal_def)
  have perm: "mset (SortaSorted entries) = mset (map fst entries)"
    by (simp add: SortaSorted_def SortaSorted_loop_mset)
  from perm d have dist: "distinct (SortaSorted entries)"
    by (metis mset_eq_imp_distinct_iff)
  from perm have "set (SortaSorted entries) = set (map fst entries)"
    by (rule mset_eq_setD)
  also have "\<dots> = dom (TimeMap m)"
    using m by (simp add: dom_map_of_conv_image_fst [symmetric])
  finally have keys: "set (SortaSorted entries) = dom (TimeMap m)" .
  from dist keys have len: "length (SortaSorted entries) = Len m"
    by (simp add: Len_def distinct_card [symmetric])
  from newest m d have mem: "(p, t) \<in> set entries"
    by (metis map_of_SomeD)
  have others: "\<forall>(q, u) \<in> set entries. q \<noteq> p \<longrightarrow> u < t"
  proof (clarify)
    fix q u
    assume "(q, u) \<in> set entries" and "q \<noteq> p"
    with d m have "TimeMap m q = Some u"
      by (metis map_of_is_SomeI)
    with unique \<open>q \<noteq> p\<close> show "u < t"
      by (simp add: Before_def)
  qed
  from positive newest have "zero_time < t"
    by (simp add: After_def)
  with d mem others have "last (SortaSorted entries) = p"
    unfolding SortaSorted_def by (rule SortaSorted_loop_last)
  with dist keys len show ?thesis by simp
qed

theorem SortaSorted_permutation_most_recent_last_witness:
  "is_traversal \<lparr>TimeMap = map_of [(''b'', 3), (''a'', 1), (''c'', 2)]\<rparr> [(''b'', 3), (''a'', 1), (''c'', 2)] \<and>
   SortaSorted [(''b'', 3), (''a'', 1), (''c'', 2)] = [''c'', ''a'', ''b''] \<and>
   last (SortaSorted [(''b'', 3), (''a'', 1), (''c'', 2)]) = ''b'' \<and>
   length (SortaSorted [(''b'', 3), (''a'', 1), (''c'', 2)]) =
     Len \<lparr>TimeMap = map_of [(''b'', 3), (''a'', 1), (''c'', 2)]\<rparr>"
proof -
  let ?es = "[(''b'', 3), (''a'', 1), (''c'', 2)] :: (string \<times> time) list"
  let ?m = "\<lparr>TimeMap = map_of ?es\<rparr>"
  have trav: "is_traversal ?m ?es"
    by (simp add: is_traversal_def)
  have nonempty: "TimeMap ?m \<noteq> Map.empty"
    by (simp add: fun_eq_iff) (rule exI [of _ "''b''"], simp)
  have positive: "\<forall>q u. TimeMap ?m q = Some u \<longrightarrow> After u zero_time"
    by (auto simp: After_def zero_time_def split: if_splits)
  have newest: "TimeMap ?m ''b'' = Some 3"
    by simp
  have unique: "\<forall>q u. TimeMap ?m q = Some u \<and> q \<noteq> ''b'' \<longrightarrow> Before u 3"
    by (auto simp: Before_def split: if_splits)
  have run: "SortaSorted ?es = [''c'', ''a'', ''b'']"
    by (simp add: SortaSorted_def After_def zero_time_def)
  from SortaSorted_permutation_most_recent_last [OF trav nonempty positive newest unique] trav run
  show ?thesis by simp
qed

section \<open>Observing a path\<close>

text \<open>
  C3. For a path that can be read, \<open>CheckTime\<close> returns true exactly when the path is not
  tracked yet or its on-disk timestamp differs from the stored one; the tracker changes
  exactly when true is returned, and then stores the on-disk timestamp. With an unchanged
  timestamp the call returns false and leaves the tracker as it is, and a second call
  right after any call returns false.
\<close>

theorem CheckTime_changed_iff:
  assumes "os_Stat P = StatInfo mt"
  shows "(fst (CheckTime os_Stat m P) \<longleftrightarrow> (TimeMap m P = None \<or> TimeMap m P \<noteq> Some mt)) \<and>
         (snd (CheckTime os_Stat m P) \<noteq> m \<longleftrightarrow> fst (CheckTime os_Stat m P)) \<and>
         (fst (CheckTime os_Stat m P) \<longrightarrow>
            snd (CheckTime os_Stat m P) = m\<lparr>TimeMap := (TimeMap m)(P \<mapsto> mt)\<rparr>) \<and>
         (TimeMap m P = Some mt \<longrightarrow>
            \<not> fst (CheckTime os_Stat m P) \<and> snd (CheckTime os_Stat m P) = m) \<and>
         \<not> fst (CheckTime os_Stat (snd (CheckTime os_Stat m P)) P)"
proof (cases "TimeMap m P")
  case None
  have "m\<lparr>TimeMap := (TimeMap m)(P \<mapsto> mt)\<rparr> \<noteq> m"
  proof
    assume "m\<lparr>TimeMap := (TimeMap m)(P \<mapsto> mt)\<rparr> = m"
    then have "TimeMap (m\<lparr>TimeMap := (TimeMap m)(P \<mapsto> mt)\<rparr>) P = TimeMap m P" by simp
    with None show False by simp
  qed
  with assms None show ?thesis
    by (simp add: CheckTime_def Equal_def)
next
  case (Some s)
  show ?thesis
  proof (cases "s = mt")
    case True
    with assms Some show ?thesis
      by (simp add: CheckTime_def Equal_def)
  next
    case False
    have "m\<lparr>TimeMap := (TimeMap m)(P \<mapsto> mt)\<rparr> \<noteq> m"
    proof
      assume "m\<lparr>TimeMap := (TimeMap m)(P \<mapsto> mt)\<rparr> = m"
      then have "TimeMap (m\<lparr>TimeMap := (TimeMap m)(P \<mapsto> mt)\<rparr>) P = TimeMap m P" by simp
      with Some False show False by simp
    qed
    with assms Some False show ?thesis
      by (simp add: CheckTime_def Equal_def)
  qed
qed

theorem CheckTime_changed_iff_witness:
  "single_file ''f.go'' 20 ''f.go'' = StatInfo 20 \<and>
   fst (CheckTime (single_file ''f.go'' 20) \<lparr>TimeMap = [''f.go'' \<mapsto> 10]\<rparr> ''f.go'') \<and>
   snd (CheckTime (single_file ''f.go'' 20) \<lparr>TimeMap = [''f.go'' \<mapsto> 10]\<rparr> ''f.go'')
     = \<lparr>TimeMap = [''f.go'' \<mapsto> 20]\<rparr> \<and>
   \<not> fst (CheckTime (single_file ''f.go'' 20)
            (snd (CheckTime (single_file ''f.go'' 20) \<lparr>TimeMap = [''f.go'' \<mapsto> 10]\<rparr> ''f.go'')) ''f.go'')"
proof -
  have readable: "single_file ''f.go'' 20 ''f.go'' = StatInfo 20"
    by (simp add: single_file_def)
  note obs = CheckTime_changed_iff [of "single_file ''f.go'' 20" "''f.go''" 20
      "\<lparr>TimeMap = [''f.go'' \<mapsto> 10]\<rparr>", OF readable]
  from obs have changed: "fst (CheckTime (single_file ''f.go'' 20) \<lparr>TimeMap = [''f.go'' \<mapsto> 10]\<rparr> ''f.go'')"
    by simp
  with obs have "snd (CheckTime (single_file ''f.go'' 20) \<lparr>TimeMap = [''f.go'' \<mapsto> 10]\<rparr> ''f.go'')
      = \<lparr>TimeMap = [''f.go'' \<mapsto> 10]\<rparr>\<lparr>TimeMap := (TimeMap \<lparr>TimeMap = [''f.go'' \<mapsto> 10]\<rparr>)(''f.go'' \<mapsto> 20)\<rparr>"
    by blast
  then have stored: "snd (CheckTime (single_file ''f.go'' 20) \<lparr>TimeMap = [''f.go'' \<mapsto> 10]\<rparr> ''f.go'')
      = \<lparr>TimeMap = [''f.go'' \<mapsto> 20]\<rparr>"
    by simp
  from obs have "\<not> fst (CheckTime (single_file ''f.go'' 20)
            (snd (CheckTime (single_file ''f.go'' 20) \<lparr>TimeMap = [''f.go'' \<mapsto> 10]\<rparr> ''f.go'')) ''f.go'')"
    by blast
  with readable changed stored show ?thesis by blast
qed

section \<open>Stored timestamps over a sequence of observations\<close>












section \<open>Constructing a diagnostic\<close>

lemma ParseInt_digits:
  assumes "s \<noteq> []" and "list_all is_digit s" and "decimal s < 2 ^ 63"
  shows "ParseInt s = (decimal s, None)"
proof -
  from assms(1,2) have "is_digit (hd s)"
    by (cases s) simp_all
  then have "hd s \<noteq> CHR ''+''" and "hd s \<noteq> CHR ''-''"
    by (auto simp: is_digit_def)
  with assms show ?thesis
    by (simp add: ParseInt_def ParseUint_def)
qed

text \<open>
  C7. When the line and the column both parse, \<open>NewWart\<close> returns the diagnostic with
  the parsed values and the reporter, issue code and message given; a string of digits
  below \<open>2 ^ 63\<close> parses to its decimal value. When the line or the column does not
  parse, the result is the fatal message for that field, and no diagnostic.
\<close>

theorem NewWart_parses_or_stops:
  "(snd (ParseInt line) = None \<and> snd (ParseInt column) = None \<longrightarrow>
      NewWart reporter line column issueCode message =
        Inr \<lparr>Reporter = reporter, Line = fst (ParseInt line), Column = fst (ParseInt column),
             IssueCode = issueCode, Message = message\<rparr>) \<and>
   (line \<noteq> [] \<and> list_all is_digit line \<and> decimal line < 2 ^ 63 \<and>
    column \<noteq> [] \<and> list_all is_digit column \<and> decimal column < 2 ^ 63 \<longrightarrow>
      NewWart reporter line column issueCode message =
        Inr \<lparr>Reporter = reporter, Line = decimal line, Column = decimal column,
             IssueCode = issueCode, Message = message\<rparr>) \<and>
   (snd (ParseInt line) \<noteq> None \<longrightarrow>
      NewWart reporter line column issueCode message =
        Inl (Fatal (''Failed parsing line number '' @ line))) \<and>
   (snd (ParseInt line) = None \<and> snd (ParseInt column) \<noteq> None \<longrightarrow>
      NewWart reporter line column issueCode message =
        Inl (Fatal (''Failed parsing column number '' @ column)))"
proof -
  obtain l le where l: "ParseInt line = (l, le)" by (cases "ParseInt line")
  obtain c ce where c: "ParseInt column = (c, ce)" by (cases "ParseInt column")
  have digits: "NewWart reporter line column issueCode message =
        Inr \<lparr>Reporter = reporter, Line = decimal line, Column = decimal column,
             IssueCode = issueCode, Message = message\<rparr>"
    if "line \<noteq> []" "list_all is_digit line" "decimal line < 2 ^ 63"
       "column \<noteq> []" "list_all is_digit column" "decimal column < 2 ^ 63"
    using that by (simp add: NewWart_def ParseInt_digits)
  from l c digits show ?thesis
    by (auto simp: NewWart_def)
qed

theorem NewWart_parses_or_stops_witness:
  "snd (ParseInt ''12'') = None \<and> snd (ParseInt ''4'') = None \<and>
   NewWart ''Pylint'' ''12'' ''4'' ''W'' ''unused import'' =
     Inr \<lparr>Reporter = ''Pylint'', Line = 12, Column = 4, IssueCode = ''W'',
          Message = ''unused import''\<rparr> \<and>
   snd (ParseInt ''99999999999999999999'') \<noteq> None \<and>
   NewWart ''build'' ''99999999999999999999'' ''0'' ''-'' ''m'' =
     Inl (Fatal ''Failed parsing line number 99999999999999999999'') \<and>
   snd (ParseInt ''x'') \<noteq> None \<and>
   NewWart ''PEP8'' ''12'' ''x'' ''E1'' ''m'' = Inl (Fatal ''Failed parsing column number x'')"
proof -
  have a: "ParseInt ''12'' = (12, None)" by code_simp
  have b: "ParseInt ''4'' = (4, None)" by code_simp
  have c: "ParseInt ''99999999999999999999'' = (9223372036854775807, Some ErrRange)" by code_simp
  have d: "ParseInt ''x'' = (0, Some ErrSyntax)" by code_simp
  from NewWart_parses_or_stops [of "''12''" "''4''" "''Pylint''" "''W''" "''unused import''"]
    NewWart_parses_or_stops [of "''99999999999999999999''" "''0''" "''build''" "''-''" "''m''"]
    NewWart_parses_or_stops [of "''12''" "''x''" "''PEP8''" "''E1''" "''m''"]
    a b c d
  show ?thesis by simp
qed

section \<open>The analyzer adapters\<close>

text \<open>
  C8. \<open>PyLint\<close>, on a \<open>.py\<close> file for which \<open>pylint\<close> prints the line
  \<open>W: 12, 4: unused import\<close>, finds exactly one match and adds exactly one diagnostic:
  reporter \<open>Pylint\<close>, line 12, column 4, issue code \<open>W\<close>, message \<open>unused import\<close>.
\<close>

theorem PyLint_extracts_diagnostic:
  assumes "filepath_Ext (Path tf) = ''.py''"
    and "fst (Output env ''pylint'' [''--output-format=text'', Path tf]) = ''W: 12, 4: unused import''"
  shows "FindAllStringSubmatch rexes_pylint ''W: 12, 4: unused import'' =
           [[''W: 12, 4: unused import'', ''W'', ''12'', ''4'', ''unused import'']] \<and>
         PyLint env tf =
           Inr (AddWart tf \<lparr>Reporter = ''Pylint'', Line = 12, Column = 4, IssueCode = ''W'',
                             Message = ''unused import''\<rparr>)"
proof -
  have parsed: "FindAllStringSubmatch rexes_pylint ''W: 12, 4: unused import'' =
           [[''W: 12, 4: unused import'', ''W'', ''12'', ''4'', ''unused import'']]"
    by code_simp
  have wart: "NewWart ''Pylint'' ''12'' ''4'' ''W'' ''unused import'' =
      Inr \<lparr>Reporter = ''Pylint'', Line = 12, Column = 4, IssueCode = ''W'',
           Message = ''unused import''\<rparr>"
    by code_simp
  obtain results err where out: "Output env ''pylint'' [''--output-format=text'', Path tf] = (results, err)"
    by (cases "Output env ''pylint'' [''--output-format=text'', Path tf]")
  with assms(2) have "results = ''W: 12, 4: unused import''" by simp
  with assms(1) out parsed wart show ?thesis
    by (simp add: PyLint_def)
qed

theorem PyLint_extracts_diagnostic_witness:
  "filepath_Ext (Path \<lparr>Path = ''pkg/mod.py'', ContentLines = [], BlameLines = [], Warts = Map.empty\<rparr>) = ''.py'' \<and>
   fst (Output (sample_env [] [(''pylint'', ''W: 12, 4: unused import'')]) ''pylint''
          [''--output-format=text'',
           Path \<lparr>Path = ''pkg/mod.py'', ContentLines = [], BlameLines = [], Warts = Map.empty\<rparr>])
     = ''W: 12, 4: unused import'' \<and>
   PyLint (sample_env [] [(''pylint'', ''W: 12, 4: unused import'')])
     \<lparr>Path = ''pkg/mod.py'', ContentLines = [], BlameLines = [], Warts = Map.empty\<rparr> =
     Inr \<lparr>Path = ''pkg/mod.py'', ContentLines = [], BlameLines = [],
          Warts = [12 \<mapsto> [\<lparr>Reporter = ''Pylint'', Line = 12, Column = 4, IssueCode = ''W'',
                                Message = ''unused import''\<rparr>]]\<rparr>"
proof -
  let ?tf = "\<lparr>Path = ''pkg/mod.py'', ContentLines = [], BlameLines = [], Warts = Map.empty\<rparr>"
  let ?env = "sample_env [] [(''pylint'', ''W: 12, 4: unused import'')]"
  have ext: "filepath_Ext (Path ?tf) = ''.py''"
    by (simp add: filepath_Ext_def)
  have out: "fst (Output ?env ''pylint'' [''--output-format=text'', Path ?tf]) = ''W: 12, 4: unused import''"
    by (simp add: sample_env_def)
  from PyLint_extracts_diagnostic [OF ext out] ext out show ?thesis
    by (simp add: AddWart_def)
qed

text \<open>
  C9. \<open>GoCmd\<close>, on a \<open>.go\<close> file for which the \<open>go\<close> command prints the line
  \<open>file.go:7: undefined: foo\<close>, finds exactly one match and adds exactly one diagnostic:
  line 7, column 0, issue code \<open>-\<close>, message \<open>undefined: foo\<close>; its reporter is the name
  of the \<open>go\<close> subcommand.
\<close>

theorem GoCmd_extracts_diagnostic:
  assumes "ExtEquals tf ''.go''"
    and "fst (CombinedOutput env ''go'' [goCmd, snd (filepath_Split (Path tf))]) = ''file.go:7: undefined: foo''"
  shows "FindAllStringSubmatch rexes_goBuild ''file.go:7: undefined: foo'' =
           [[''go:7: undefined: foo'', ''7'', ''undefined: foo'']] \<and>
         GoCmd env goCmd tf =
           Inr (AddWart tf \<lparr>Reporter = goCmd, Line = 7, Column = 0, IssueCode = ''-'',
                             Message = ''undefined: foo''\<rparr>)"
proof -
  have parsed: "FindAllStringSubmatch rexes_goBuild ''file.go:7: undefined: foo'' =
           [[''go:7: undefined: foo'', ''7'', ''undefined: foo'']]"
    by code_simp
  have seven: "ParseInt ''7'' = (7, None)" by code_simp
  have zero: "ParseInt ''0'' = (0, None)" by code_simp
  have wart: "NewWart goCmd ''7'' ''0'' ''-'' ''undefined: foo'' =
      Inr \<lparr>Reporter = goCmd, Line = 7, Column = 0, IssueCode = ''-'', Message = ''undefined: foo''\<rparr>"
    by (simp add: NewWart_def seven zero)
  obtain dir base where split: "filepath_Split (Path tf) = (dir, base)"
    by (cases "filepath_Split (Path tf)")
  obtain results err where out: "CombinedOutput env ''go'' [goCmd, base] = (results, err)"
    by (cases "CombinedOutput env ''go'' [goCmd, base]")
  with assms(2) split have "results = ''file.go:7: undefined: foo''" by simp
  with assms(1) split out parsed wart show ?thesis
    by (simp add: GoCmd_def)
qed

theorem GoCmd_extracts_diagnostic_witness:
  "ExtEquals \<lparr>Path = ''src/file.go'', ContentLines = [], BlameLines = [], Warts = Map.empty\<rparr> ''.go'' \<and>
   fst (CombinedOutput (sample_env [] [(''go'', ''file.go:7: undefined: foo'')]) ''go''
          [''build'', snd (filepath_Split
             (Path \<lparr>Path = ''src/file.go'', ContentLines = [], BlameLines = [], Warts = Map.empty\<rparr>))])
     = ''file.go:7: undefined: foo'' \<and>
   GoCmd (sample_env [] [(''go'', ''file.go:7: undefined: foo'')]) ''build''
     \<lparr>Path = ''src/file.go'', ContentLines = [], BlameLines = [], Warts = Map.empty\<rparr> =
     Inr \<lparr>Path = ''src/file.go'', ContentLines = [], BlameLines = [],
          Warts = [7 \<mapsto> [\<lparr>Reporter = ''build'', Line = 7, Column = 0, IssueCode = ''-'',
                               Message = ''undefined: foo''\<rparr>]]\<rparr>"
proof -
  let ?tf = "\<lparr>Path = ''src/file.go'', ContentLines = [], BlameLines = [], Warts = Map.empty\<rparr>"
  let ?env = "sample_env [] [(''go'', ''file.go:7: undefined: foo'')]"
  have ext: "ExtEquals ?tf ''.go''"
    by (simp add: ExtEquals_def filepath_Ext_def)
  have out: "fst (CombinedOutput ?env ''go'' [''build'', snd (filepath_Split (Path ?tf))])
      = ''file.go:7: undefined: foo''"
    by (simp add: sample_env_def)
  from GoCmd_extracts_diagnostic [OF ext out] ext out show ?thesis
    by (simp add: AddWart_def)
qed

section \<open>Blame names\<close>

lemma backtrack_found_iff:
  "backtrack f lo hi \<noteq> None \<longleftrightarrow> (\<exists>n. lo \<le> n \<and> n \<le> hi \<and> f n \<noteq> None)"
proof (induction hi)
  case 0
  show ?case by (cases "lo = 0") (simp_all del: not_None_eq)
next
  case (Suc hi)
  show ?case
  proof (cases "Suc hi < lo")
    case True
    then have "\<not> (\<exists>n. lo \<le> n \<and> n \<le> Suc hi \<and> f n \<noteq> None)" by auto
    with True show ?thesis by (simp del: not_None_eq)
  next
    case False
    then have "backtrack f lo (Suc hi) \<noteq> None \<longleftrightarrow> f (Suc hi) \<noteq> None \<or> backtrack f lo hi \<noteq> None"
      by (simp split: option.splits del: not_None_eq)
    also have "\<dots> \<longleftrightarrow> f (Suc hi) \<noteq> None \<or> (\<exists>n. lo \<le> n \<and> n \<le> hi \<and> f n \<noteq> None)"
      by (simp only: Suc.IH)
    also have "\<dots> \<longleftrightarrow> (\<exists>n. lo \<le> n \<and> n \<le> Suc hi \<and> f n \<noteq> None)"
    proof
      assume "f (Suc hi) \<noteq> None \<or> (\<exists>n. lo \<le> n \<and> n \<le> hi \<and> f n \<noteq> None)"
      then show "\<exists>n. lo \<le> n \<and> n \<le> Suc hi \<and> f n \<noteq> None"
      proof
        assume "f (Suc hi) \<noteq> None"
        with False show ?thesis by (intro exI [of _ "Suc hi"]) simp
      next
        assume "\<exists>n. lo \<le> n \<and> n \<le> hi \<and> f n \<noteq> None"
        then obtain n where "lo \<le> n" "n \<le> hi" "f n \<noteq> None" by blast
        then show ?thesis by (intro exI [of _ n]) simp
      qed
    next
      assume "\<exists>n. lo \<le> n \<and> n \<le> Suc hi \<and> f n \<noteq> None"
      then obtain n where n: "lo \<le> n" "n \<le> Suc hi" "f n \<noteq> None" by blast
      show "f (Suc hi) \<noteq> None \<or> (\<exists>n. lo \<le> n \<and> n \<le> hi \<and> f n \<noteq> None)"
      proof (cases "n = Suc hi")
        case True
        with n show ?thesis by simp
      next
        case False
        with n have "n \<le> hi" by simp
        with n show ?thesis by blast
      qed
    qed
    finally show ?thesis .
  qed
qed

lemma run_length_ge_iff:
  "n \<le> run_length k xs \<longleftrightarrow> n \<le> length xs \<and> list_all (cls_matches k) (take n xs)"
proof (induction xs arbitrary: n)
  case Nil
  then show ?case by simp
next
  case (Cons x xs)
  then show ?case by (cases n) auto
qed

lemma search_found_iff:
  "search re s pos n \<noteq> None \<longleftrightarrow>
     (\<exists>p. pos \<le> p \<and> p \<le> pos + n \<and> nodes_match re s p (\<lambda>g. (0, 0)) \<noteq> None)"
proof (induction n arbitrary: pos)
  case 0
  show ?case
  proof
    assume "search re s pos 0 \<noteq> None"
    then have "nodes_match re s pos (\<lambda>g. (0, 0)) \<noteq> None"
      by (simp del: not_None_eq)
    then show "\<exists>p. pos \<le> p \<and> p \<le> pos + 0 \<and> nodes_match re s p (\<lambda>g. (0, 0)) \<noteq> None"
      by (intro exI [of _ pos]) simp
  next
    assume "\<exists>p. pos \<le> p \<and> p \<le> pos + 0 \<and> nodes_match re s p (\<lambda>g. (0, 0)) \<noteq> None"
    then obtain p where "pos \<le> p" "p \<le> pos + 0" and m: "nodes_match re s p (\<lambda>g. (0, 0)) \<noteq> None"
      by blast
    then have "p = pos" by simp
    with m show "search re s pos 0 \<noteq> None"
      by (simp del: not_None_eq)
  qed
next
  case (Suc n)
  have "search re s pos (Suc n) \<noteq> None \<longleftrightarrow>
      nodes_match re s pos (\<lambda>g. (0, 0)) \<noteq> None \<or> search re s (Suc pos) n \<noteq> None"
    by (simp split: option.splits del: not_None_eq)
  also have "\<dots> \<longleftrightarrow> nodes_match re s pos (\<lambda>g. (0, 0)) \<noteq> None \<or>
      (\<exists>p. Suc pos \<le> p \<and> p \<le> Suc pos + n \<and> nodes_match re s p (\<lambda>g. (0, 0)) \<noteq> None)"
    by (simp only: Suc.IH)
  also have "\<dots> \<longleftrightarrow> (\<exists>p. pos \<le> p \<and> p \<le> pos + Suc n \<and> nodes_match re s p (\<lambda>g. (0, 0)) \<noteq> None)"
  proof
    assume "nodes_match re s pos (\<lambda>g. (0, 0)) \<noteq> None \<or>
      (\<exists>p. Suc pos \<le> p \<and> p \<le> Suc pos + n \<and> nodes_match re s p (\<lambda>g. (0, 0)) \<noteq> None)"
    then show "\<exists>p. pos \<le> p \<and> p \<le> pos + Suc n \<and> nodes_match re s p (\<lambda>g. (0, 0)) \<noteq> None"
    proof
      assume "nodes_match re s pos (\<lambda>g. (0, 0)) \<noteq> None"
      then show ?thesis by (intro exI [of _ pos]) simp
    next
      assume "\<exists>p. Suc pos \<le> p \<and> p \<le> Suc pos + n \<and> nodes_match re s p (\<lambda>g. (0, 0)) \<noteq> None"
      then obtain p where "Suc pos \<le> p" "p \<le> Suc pos + n"
        "nodes_match re s p (\<lambda>g. (0, 0)) \<noteq> None" by blast
      then show ?thesis by (intro exI [of _ p]) simp
    qed
  next
    assume "\<exists>p. pos \<le> p \<and> p \<le> pos + Suc n \<and> nodes_match re s p (\<lambda>g. (0, 0)) \<noteq> None"
    then obtain p where p: "pos \<le> p" "p \<le> pos + Suc n"
      "nodes_match re s p (\<lambda>g. (0, 0)) \<noteq> None" by blast
    show "nodes_match re s pos (\<lambda>g. (0, 0)) \<noteq> None \<or>
      (\<exists>p. Suc pos \<le> p \<and> p \<le> Suc pos + n \<and> nodes_match re s p (\<lambda>g. (0, 0)) \<noteq> None)"
    proof (cases "p = pos")
      case True
      with p show ?thesis by simp
    next
      case False
      with p have "Suc pos \<le> p" "p \<le> Suc pos + n" by simp_all
      with p(3) show ?thesis by blast
    qed
  qed
  finally show ?case .
qed

lemma blameName_match_at:
  "nodes_match (prog rexes_blameName) s p c \<noteq> None \<longleftrightarrow>
     p < length s \<and> s ! p = CHR ''('' \<and>
     (\<exists>n. 1 \<le> n \<and> n \<le> run_length (Union PerlWord PerlSpace) (drop (Suc p) s) \<and>
          4 \<le> run_length PerlDigit (drop (Suc p + n) s))"
  by (simp add: rexes_blameName_def node_match_def backtrack_found_iff del: not_None_eq) blast

lemma blameName_found_iff:
  "FindStringSubmatch rexes_blameName s \<noteq> None \<longleftrightarrow> has_name_and_year s"
proof
  assume "FindStringSubmatch rexes_blameName s \<noteq> None"
  then have "search (prog rexes_blameName) s 0 (length s) \<noteq> None"
    by (simp add: FindStringSubmatch_def doExecute_def del: not_None_eq)
  then obtain p where "nodes_match (prog rexes_blameName) s p (\<lambda>g. (0, 0)) \<noteq> None"
    unfolding search_found_iff by blast
  then obtain n where p: "p < length s" and paren: "s ! p = CHR ''(''" and n: "1 \<le> n"
    and name: "n \<le> run_length (Union PerlWord PerlSpace) (drop (Suc p) s)"
    and year: "4 \<le> run_length PerlDigit (drop (Suc p + n) s)"
    unfolding blameName_match_at by blast
  let ?name = "take n (drop (Suc p) s)" and ?year = "take 4 (drop (Suc p + n) s)"
  from p paren have "s = take p s @ ''('' @ drop (Suc p) s"
    by (metis append_Cons append_Nil id_take_nth_drop)
  also have "drop (Suc p) s = ?name @ drop n (drop (Suc p) s)"
    by (rule append_take_drop_id [symmetric])
  also have "drop n (drop (Suc p) s) = drop (Suc p + n) s"
    by (simp add: add.commute)
  also have "drop (Suc p + n) s = ?year @ drop 4 (drop (Suc p + n) s)"
    by (rule append_take_drop_id [symmetric])
  also have "drop 4 (drop (Suc p + n) s) = drop (Suc p + n + 4) s"
    by (simp add: add.commute)
  finally have "s = take p s @ ''('' @ ?name @ ?year @ drop (Suc p + n + 4) s" .
  moreover from name n have "?name \<noteq> []" and "list_all (\<lambda>c. is_word c \<or> is_space c) ?name"
    by (auto simp: run_length_ge_iff list_all_iff)
  moreover from year have "length ?year = 4" and "list_all is_digit ?year"
    by (auto simp: run_length_ge_iff list_all_iff)
  ultimately show "has_name_and_year s"
    unfolding has_name_and_year_def by blast
next
  assume "has_name_and_year s"
  then obtain pre name year post where s: "s = pre @ ''('' @ name @ year @ post"
    and name: "name \<noteq> []" "list_all (\<lambda>c. is_word c \<or> is_space c) name"
    and year: "length year = 4" "list_all is_digit year"
    unfolding has_name_and_year_def by blast
  let ?p = "length pre" and ?n = "length name"
  from s have p: "?p < length s" and paren: "s ! ?p = CHR ''(''"
    by simp_all
  from s have rest: "drop (Suc ?p) s = name @ year @ post"
    by simp
  from s have rest': "drop (Suc ?p + ?n) s = year @ post"
    by simp
  from name have "1 \<le> ?n"
    by (cases name) simp_all
  moreover from name have "?n \<le> run_length (Union PerlWord PerlSpace) (drop (Suc ?p) s)"
    unfolding rest run_length_ge_iff by (simp add: list_all_iff)
  moreover from year have "4 \<le> run_length PerlDigit (drop (Suc ?p + ?n) s)"
    unfolding rest' run_length_ge_iff by (simp add: list_all_iff)
  ultimately have "nodes_match (prog rexes_blameName) s ?p (\<lambda>g. (0, 0)) \<noteq> None"
    unfolding blameName_match_at using p paren by blast
  with p have "search (prog rexes_blameName) s 0 (length s) \<noteq> None"
    unfolding search_found_iff by (intro exI [of _ ?p]) simp
  then show "FindStringSubmatch rexes_blameName s \<noteq> None"
    by (simp add: FindStringSubmatch_def doExecute_def del: not_None_eq)
qed

lemma FindStringSubmatch_length:
  "FindStringSubmatch re s = Some match \<Longrightarrow> length match = Suc (numSubexp re)"
  by (auto simp: FindStringSubmatch_def submatches_def)

text \<open>
  C6, amended. For a file without blame lines, \<open>BlameName\<close> returns the sentinel \<open>-\<close>
  for every line asked for, whatever its number, and does not panic. The sentinel of
  the code is the string \<open>-\<close>, not the string \<open>unknown\<close>.
\<close>

theorem BlameName_without_blame:
  assumes "BlameLines tf = []"
  shows "BlameName tf line = Inr ''-''"
  using assms by (simp add: BlameName_def)

theorem BlameName_without_blame_witness:
  "BlameLines (sample_target ''main.go'' []) = [] \<and>
   BlameName (sample_target ''main.go'' []) 1 = Inr ''-'' \<and>
   BlameName (sample_target ''main.go'' []) (- 5) = Inr ''-''"
proof -
  have none: "BlameLines (sample_target ''main.go'' []) = []"
    by (simp add: sample_target_def)
  from BlameName_without_blame [OF none, of 1] BlameName_without_blame [OF none, of "- 5"] none
  show ?thesis by simp
qed

text \<open>The value returned without blame lines is not the string \<open>unknown\<close>.\<close>

theorem BlameName_sentinel_counterexample:
  "BlameLines (sample_target ''main.go'' []) = [] \<and>
   BlameName (sample_target ''main.go'' []) 1 \<noteq> Inr ''unknown''"
  by (simp add: BlameName_def sample_target_def)

text \<open>
  C10. With blame lines present, \<open>BlameName\<close> returns a name when the line number lies
  between 1 and the number of blame lines and the blame line at that place holds an
  opening parenthesis, word or space characters and four digits. For a line number out
  of that range it panics on \<open>tf.BlameLines[line-1]\<close>, and for a blame line without
  such a text it panics on \<open>match[1]\<close>. Only the case of no blame lines is guarded.
\<close>

theorem BlameName_safe_only_in_range_with_match:
  assumes "BlameLines tf \<noteq> []"
  shows "(1 \<le> line \<and> line \<le> int (length (BlameLines tf)) \<and>
          has_name_and_year (BlameLines tf ! nat (line - 1)) \<longrightarrow>
            (\<exists>name. BlameName tf line = Inr name)) \<and>
         (line < 1 \<or> int (length (BlameLines tf)) < line \<longrightarrow>
            BlameName tf line = Inl BlameLineOutOfRange) \<and>
         (1 \<le> line \<and> line \<le> int (length (BlameLines tf)) \<and>
          \<not> has_name_and_year (BlameLines tf ! nat (line - 1)) \<longrightarrow>
            BlameName tf line = Inl NoMatchOutOfRange)"
proof (intro conjI impI)
  assume "1 \<le> line \<and> line \<le> int (length (BlameLines tf)) \<and>
          has_name_and_year (BlameLines tf ! nat (line - 1))"
  then have range: "\<not> (line - 1 < 0 \<or> int (length (BlameLines tf)) \<le> line - 1)"
    and "FindStringSubmatch rexes_blameName (BlameLines tf ! nat (line - 1)) \<noteq> None"
    unfolding blameName_found_iff by simp_all
  then obtain match
    where m: "FindStringSubmatch rexes_blameName (BlameLines tf ! nat (line - 1)) = Some match"
    by blast
  from FindStringSubmatch_length [OF m] have "length match = 2"
    by (simp add: rexes_blameName_def)
  with assms range m have "BlameName tf line = Inr (TrimSpace (match ! 1))"
    by (simp add: BlameName_def)
  then show "\<exists>name. BlameName tf line = Inr name" ..
next
  assume "line < 1 \<or> int (length (BlameLines tf)) < line"
  then have "line - 1 < 0 \<or> int (length (BlameLines tf)) \<le> line - 1"
    by auto
  with assms show "BlameName tf line = Inl BlameLineOutOfRange"
    by (simp add: BlameName_def)
next
  assume "1 \<le> line \<and> line \<le> int (length (BlameLines tf)) \<and>
          \<not> has_name_and_year (BlameLines tf ! nat (line - 1))"
  then have range: "\<not> (line - 1 < 0 \<or> int (length (BlameLines tf)) \<le> line - 1)"
    and "\<not> FindStringSubmatch rexes_blameName (BlameLines tf ! nat (line - 1)) \<noteq> None"
    unfolding blameName_found_iff by simp_all
  then have range: "\<not> (line - 1 < 0 \<or> int (length (BlameLines tf)) \<le> line - 1)"
    and "FindStringSubmatch rexes_blameName (BlameLines tf ! nat (line - 1)) = None"
    by simp_all
  with assms show "BlameName tf line = Inl NoMatchOutOfRange"
    by (simp add: BlameName_def)
qed

theorem BlameName_safe_only_in_range_with_match_witness:
  "BlameLines (sample_target ''main.go''
      [''^1a2b3c4 (John Doe 2014-01-02 12:00:00 +0000 1) package main'', ''(no year here)'']) \<noteq> [] \<and>
   BlameName (sample_target ''main.go''
      [''^1a2b3c4 (John Doe 2014-01-02 12:00:00 +0000 1) package main'', ''(no year here)'']) 1 = Inr ''John Doe'' \<and>
   BlameName (sample_target ''main.go''
      [''^1a2b3c4 (John Doe 2014-01-02 12:00:00 +0000 1) package main'', ''(no year here)'']) 2 = Inl NoMatchOutOfRange \<and>
   BlameName (sample_target ''main.go''
      [''^1a2b3c4 (John Doe 2014-01-02 12:00:00 +0000 1) package main'', ''(no year here)'']) 3 = Inl BlameLineOutOfRange \<and>
   BlameName (sample_target ''main.go''
      [''^1a2b3c4 (John Doe 2014-01-02 12:00:00 +0000 1) package main'', ''(no year here)'']) 0 = Inl BlameLineOutOfRange"
proof -
  let ?tf = "sample_target ''main.go''
      [''^1a2b3c4 (John Doe 2014-01-02 12:00:00 +0000 1) package main'', ''(no year here)'']"
  have lines: "BlameLines ?tf \<noteq> []"
    by (simp add: sample_target_def)
  have len: "int (length (BlameLines ?tf)) = 2"
    by (simp add: sample_target_def)
  have first: "BlameName ?tf 1 = Inr ''John Doe''"
    by code_simp
  have "FindStringSubmatch rexes_blameName ''(no year here)'' = None"
    by code_simp
  then have "\<not> FindStringSubmatch rexes_blameName ''(no year here)'' \<noteq> None"
    by simp
  then have "\<not> has_name_and_year (BlameLines ?tf ! nat (2 - 1))"
    unfolding blameName_found_iff by (simp add: sample_target_def)
  with BlameName_safe_only_in_range_with_match [OF lines, of 2] len
  have second: "BlameName ?tf 2 = Inl NoMatchOutOfRange"
    by simp
  from BlameName_safe_only_in_range_with_match [OF lines, of 3] len
  have third: "BlameName ?tf 3 = Inl BlameLineOutOfRange"
    by simp
  from BlameName_safe_only_in_range_with_match [OF lines, of 0] len
  have zeroth: "BlameName ?tf 0 = Inl BlameLineOutOfRange"
    by simp
  from lines first second third zeroth show ?thesis by blast
qed

section \<open>Analyzing one file, and a pass over several\<close>












end
